theory Spec2Isabelle
  imports Main "HOL-Library.Char_ord" "HOL-Library.List_Lexorder" "HOL-Library.AList"
begin

section \<open>JavaScript values used by server.js\<close>

text \<open>
  The embedding follows \<^verbatim>\<open>src/server.js\<close> (first revision in the file) in its in-memory
  mode: \<^verbatim>\<open>MONGO_URI\<close> is unset, so \<^verbatim>\<open>db\<close> stays \<^verbatim>\<open>null\<close> and every
  \<^verbatim>\<open>if (db)\<close> takes its else branch.

  A field of a parsed JSON frame or request body is a string or absent: \<open>None\<close> stands for
  \<^verbatim>\<open>undefined\<close> (and for the initial \<^verbatim>\<open>null\<close> of \<^verbatim>\<open>connectedUserId\<close>, which the code
  only ever tests for truthiness). A string is a list of code units; the order on strings is
  the lexicographic order on code units, which is what \<^verbatim>\<open>Array.prototype.sort\<close> uses.
\<close>

type_synonym jsstr = "string option"

fun truthy :: "jsstr \<Rightarrow> bool" where
  "truthy None = False"
| "truthy (Some s) = (s \<noteq> [])"

text \<open>\<^verbatim>\<open>x || d\<close> for a string-or-undefined \<open>x\<close> and a string default \<open>d\<close>.\<close>

fun or_else :: "jsstr \<Rightarrow> string \<Rightarrow> string" where
  "or_else None d = d"
| "or_else (Some s) d = (if s = [] then d else s)"

text \<open>\<^verbatim>\<open>n || 0\<close> for a number-or-undefined \<open>n\<close>.\<close>

fun num_or_zero :: "nat option \<Rightarrow> nat" where
  "num_or_zero None = 0"
| "num_or_zero (Some n) = n"

text \<open>\<^verbatim>\<open>xs.slice(-n)\<close>: the last \<open>n\<close> elements, all of them when there are fewer.\<close>

definition slice_last :: "nat \<Rightarrow> 'a list \<Rightarrow> 'a list" where
  "slice_last n xs = drop (length xs - n) xs"

text \<open>\<^verbatim>\<open>s.slice(0, n)\<close> on a string.\<close>

definition slice_to :: "nat \<Rightarrow> string \<Rightarrow> string" where
  "slice_to n s = take n s"

text \<open>
  \<^verbatim>\<open>Array.prototype.sort()\<close> without comparator: the defined elements in ascending
  code-unit order, then the undefined ones.
\<close>

definition js_sort :: "jsstr list \<Rightarrow> jsstr list" where
  "js_sort xs = map Some (sort (List.map_filter (\<lambda>x. x) xs)) @ filter (\<lambda>x. x = None) xs"

text \<open>\<^verbatim>\<open>Array.prototype.join(sep)\<close>: an undefined element is rendered as the empty string.\<close>

fun js_str :: "jsstr \<Rightarrow> string" where
  "js_str None = []"
| "js_str (Some s) = s"

fun js_join :: "string \<Rightarrow> jsstr list \<Rightarrow> string" where
  "js_join sep [] = []"
| "js_join sep [x] = js_str x"
| "js_join sep (x # y # zs) = js_str x @ sep @ js_join sep (y # zs)"

text \<open>A \<^verbatim>\<open>Set\<close> as the list of its members in insertion order.\<close>

definition set_add :: "'a \<Rightarrow> 'a list \<Rightarrow> 'a list" where
  "set_add x xs = (if x \<in> set xs then xs else xs @ [x])"

definition set_delete :: "'a \<Rightarrow> 'a list \<Rightarrow> 'a list" where
  "set_delete x xs = removeAll x xs"

text \<open>
  A \<^verbatim>\<open>Map\<close> as an association list in insertion order: \<^verbatim>\<open>get\<close> is \<^const>\<open>map_of\<close>,
  \<^verbatim>\<open>set\<close> is \<^const>\<open>AList.update\<close> (an existing key keeps its place, a new one goes last),
  \<^verbatim>\<open>delete\<close> is \<^const>\<open>AList.delete\<close>. \<open>map_has\<close> is \<^verbatim>\<open>has\<close>; \<open>upd_at\<close> mutates in place
  the object stored under a key, as \<^verbatim>\<open>m.get(k).add(x)\<close> and \<^verbatim>\<open>m.get(k).push(x)\<close> do.
\<close>

definition map_has :: "('k \<times> 'v) list \<Rightarrow> 'k \<Rightarrow> bool" where
  "map_has m k = (map_of m k \<noteq> None)"

definition upd_at :: "'k \<Rightarrow> ('v \<Rightarrow> 'v) \<Rightarrow> ('k \<times> 'v) list \<Rightarrow> ('k \<times> 'v) list" where
  "upd_at k f m = map (\<lambda>(k', v). if k' = k then (k', f v) else (k', v)) m"

section \<open>Data model\<close>

type_synonym conn = nat

record profile =
  p_id :: jsstr
  p_name :: string
  p_plan :: string
  p_avatar :: string

record pubmsg =
  m_id :: nat
  m_userId :: jsstr
  m_name :: string
  m_plan :: string
  m_text :: string
  m_timestamp :: nat
  m_avatar :: string

record dmmsg =
  d_id :: nat
  d_fromId :: jsstr
  d_fromName :: string
  d_fromPlan :: string
  d_toId :: jsstr
  d_text :: string
  d_timestamp :: nat
  d_read :: bool

record user =
  u_name :: jsstr
  u_email :: string
  u_username :: jsstr
  u_plan :: string
  u_avatar :: jsstr
  u_projectsCount :: nat
  u_updatedAt :: nat
  u_createdAt :: nat
  u_banned :: bool

record project =
  pr_id :: string
  pr_votes :: nat
  pr_views :: nat
  pr_createdAt :: nat
  pr_body :: string

text \<open>
  What the environment supplies to a handler: \<open>id_sample\<close> is the value of
  \<^verbatim>\<open>Date.now() + Math.random()\<close>, \<open>now\<close> the reading of \<^verbatim>\<open>new Date()\<close>.
\<close>

record clock =
  id_sample :: nat
  now :: nat

text \<open>Inbound frames after \<^verbatim>\<open>JSON.parse\<close>, by their \<^verbatim>\<open>type\<close> field.\<close>

datatype frame =
    Join jsstr jsstr jsstr jsstr
  | Message jsstr jsstr jsstr jsstr
  | Dm jsstr jsstr jsstr jsstr
  | GetDmHistory jsstr
  | Typing jsstr "bool option"
  | DmTyping jsstr jsstr "bool option"
  | OtherType
  | Malformed

text \<open>Outbound frames.\<close>

datatype outframe =
    History "pubmsg list"
  | OnlineUsers "profile list"
  | UserJoined profile
  | UserLeft jsstr
  | MessageEv pubmsg
  | DmEv dmmsg
  | DmSent dmmsg
  | DmHistory jsstr "dmmsg list"
  | TypingEv jsstr jsstr "bool option"
  | DmTypingEv jsstr jsstr "bool option"
  | VoteUpdate string nat
  | NewProject project

text \<open>
  The process state. \<open>clients\<close> is \<^verbatim>\<open>wss.clients\<close>: the open connections, each with the
  \<^verbatim>\<open>connectedUserId\<close> variable of its handler closure. \<open>next_conn\<close> names the next
  \<^verbatim>\<open>ws\<close> object the library will create.
\<close>

record server =
  clients :: "(conn \<times> jsstr) list"
  next_conn :: conn
  userSockets :: "(jsstr \<times> conn list) list"
  publicMessages :: "pubmsg list"
  dmThreads :: "(string \<times> dmmsg list) list"
  onlineUsers :: "(jsstr \<times> profile) list"
  inMemoryUsers :: "(string \<times> user) list"
  inMemoryProjects :: "project list"
  inMemoryVotes :: "(string \<times> string list) list"

definition init :: server where
  "init = \<lparr> clients = [], next_conn = 0, userSockets = [], publicMessages = [],
            dmThreads = [], onlineUsers = [], inMemoryUsers = [], inMemoryProjects = [],
            inMemoryVotes = [] \<rparr>"

section \<open>Socket subsystem\<close>

text \<open>\<^verbatim>\<open>ws.readyState === WebSocket.OPEN\<close>: a socket is open from its connection to its close.\<close>

definition is_open :: "server \<Rightarrow> conn \<Rightarrow> bool" where
  "is_open s c = (c \<in> set (map fst (clients s)))"

definition connectedUserId :: "server \<Rightarrow> conn \<Rightarrow> jsstr" where
  "connectedUserId s c = (case map_of (clients s) c of None \<Rightarrow> None | Some u \<Rightarrow> u)"

definition broadcastToAll :: "server \<Rightarrow> outframe \<Rightarrow> (conn \<times> outframe) list" where
  "broadcastToAll s data = map (\<lambda>ws. (ws, data)) (filter (is_open s) (map fst (clients s)))"

definition sendToUser :: "server \<Rightarrow> jsstr \<Rightarrow> outframe \<Rightarrow> (conn \<times> outframe) list" where
  "sendToUser s userId data =
     (case map_of (userSockets s) userId of
        None \<Rightarrow> []
      | Some sockets \<Rightarrow> map (\<lambda>ws. (ws, data)) (filter (is_open s) sockets))"

definition getDMKey :: "jsstr \<Rightarrow> jsstr \<Rightarrow> string" where
  "getDMKey a b = js_join '':'' (js_sort [a, b])"

definition Anonyme :: string where
  "Anonyme = ''Anonyme''"

definition free :: string where
  "free = ''free''"

text \<open>The default avatar, U+1F464, as its bytes in UTF-8.\<close>

definition bust :: string where
  "bust = [CHR 0xF0, CHR 0x9F, CHR 0x91, CHR 0xA4]"

text \<open>The \<^verbatim>\<open>join\<close> case of the switch, on connection \<open>ws\<close>.\<close>

definition on_join :: "server \<Rightarrow> conn \<Rightarrow> jsstr \<Rightarrow> jsstr \<Rightarrow> jsstr \<Rightarrow> jsstr
    \<Rightarrow> server \<times> (conn \<times> outframe) list" where
  "on_join s ws userId name plan avatar =
     (let s1 = s\<lparr> clients := AList.update ws userId (clients s) \<rparr>;
          s2 = (if \<not> map_has (userSockets s1) userId
                then s1\<lparr> userSockets := AList.update userId [] (userSockets s1) \<rparr> else s1);
          s3 = s2\<lparr> userSockets := upd_at userId (set_add ws) (userSockets s2) \<rparr>;
          prof = \<lparr> p_id = userId, p_name = or_else name Anonyme, p_plan = or_else plan free,
                   p_avatar = or_else avatar bust \<rparr>;
          s4 = s3\<lparr> onlineUsers := AList.update userId prof (onlineUsers s3) \<rparr>
      in (s4, (ws, History (slice_last 50 (publicMessages s4)))
              # broadcastToAll s4 (OnlineUsers (map snd (onlineUsers s4)))
              @ broadcastToAll s4 (UserJoined prof)))"

definition mk_message :: "jsstr \<Rightarrow> jsstr \<Rightarrow> jsstr \<Rightarrow> jsstr \<Rightarrow> jsstr \<Rightarrow> clock \<Rightarrow> pubmsg" where
  "mk_message uid name plan text avatar clk =
     \<lparr> m_id = id_sample clk, m_userId = uid, m_name = or_else name Anonyme,
       m_plan = or_else plan free, m_text = slice_to 500 (or_else text []),
       m_timestamp = now clk, m_avatar = or_else avatar bust \<rparr>"

text \<open>The \<^verbatim>\<open>message\<close> case.\<close>

definition on_message :: "server \<Rightarrow> conn \<Rightarrow> jsstr \<Rightarrow> jsstr \<Rightarrow> jsstr \<Rightarrow> jsstr \<Rightarrow> clock
    \<Rightarrow> server \<times> (conn \<times> outframe) list" where
  "on_message s ws name plan text avatar clk =
     (if \<not> truthy (connectedUserId s ws) then (s, [])
      else
        let msg = mk_message (connectedUserId s ws) name plan text avatar clk;
            s1 = s\<lparr> publicMessages := publicMessages s @ [msg] \<rparr>;
            s2 = (if length (publicMessages s1) > 200
                  then s1\<lparr> publicMessages := tl (publicMessages s1) \<rparr> else s1)
        in (s2, broadcastToAll s2 (MessageEv msg)))"

definition mk_dm :: "jsstr \<Rightarrow> jsstr \<Rightarrow> jsstr \<Rightarrow> jsstr \<Rightarrow> jsstr \<Rightarrow> clock \<Rightarrow> dmmsg" where
  "mk_dm uid toId fromName fromPlan text clk =
     \<lparr> d_id = id_sample clk, d_fromId = uid, d_fromName = or_else fromName Anonyme,
       d_fromPlan = or_else fromPlan free, d_toId = toId,
       d_text = slice_to 500 (or_else text []), d_timestamp = now clk, d_read = False \<rparr>"

text \<open>The \<^verbatim>\<open>dm\<close> case.\<close>

definition on_dm :: "server \<Rightarrow> conn \<Rightarrow> jsstr \<Rightarrow> jsstr \<Rightarrow> jsstr \<Rightarrow> jsstr \<Rightarrow> clock
    \<Rightarrow> server \<times> (conn \<times> outframe) list" where
  "on_dm s ws toId fromName fromPlan text clk =
     (if \<not> truthy (connectedUserId s ws) then (s, [])
      else if \<not> truthy toId \<or> toId = connectedUserId s ws then (s, [])
      else
        let dmMsg = mk_dm (connectedUserId s ws) toId fromName fromPlan text clk;
            key = getDMKey (connectedUserId s ws) toId;
            s1 = (if \<not> map_has (dmThreads s) key
                  then s\<lparr> dmThreads := AList.update key [] (dmThreads s) \<rparr> else s);
            s2 = s1\<lparr> dmThreads := upd_at key (\<lambda>t. t @ [dmMsg]) (dmThreads s1) \<rparr>
        in (s2, sendToUser s2 toId (DmEv dmMsg)
                @ sendToUser s2 (connectedUserId s ws) (DmSent dmMsg)))"

text \<open>The \<^verbatim>\<open>get_dm_history\<close> case.\<close>

definition on_get_dm_history :: "server \<Rightarrow> conn \<Rightarrow> jsstr \<Rightarrow> server \<times> (conn \<times> outframe) list" where
  "on_get_dm_history s ws withId =
     (if \<not> truthy (connectedUserId s ws) then (s, [])
      else
        let key = getDMKey (connectedUserId s ws) withId
        in (s, [(ws, DmHistory withId
                  (case map_of (dmThreads s) key of None \<Rightarrow> [] | Some t \<Rightarrow> t))]))"

text \<open>The \<^verbatim>\<open>typing\<close> and \<^verbatim>\<open>dm_typing\<close> cases.\<close>

definition on_typing :: "server \<Rightarrow> conn \<Rightarrow> jsstr \<Rightarrow> bool option
    \<Rightarrow> server \<times> (conn \<times> outframe) list" where
  "on_typing s ws name isTyping =
     (if \<not> truthy (connectedUserId s ws) then (s, [])
      else (s, broadcastToAll s (TypingEv (connectedUserId s ws) name isTyping)))"

definition on_dm_typing :: "server \<Rightarrow> conn \<Rightarrow> jsstr \<Rightarrow> jsstr \<Rightarrow> bool option
    \<Rightarrow> server \<times> (conn \<times> outframe) list" where
  "on_dm_typing s ws toId name isTyping =
     (if \<not> truthy (connectedUserId s ws) then (s, [])
      else (s, sendToUser s toId (DmTypingEv (connectedUserId s ws) name isTyping)))"

text \<open>
  \<^verbatim>\<open>ws.on('message')\<close>: a frame that does not parse returns at once, a frame of another
  type matches no case of the switch.
\<close>

fun on_frame :: "server \<Rightarrow> conn \<Rightarrow> frame \<Rightarrow> clock \<Rightarrow> server \<times> (conn \<times> outframe) list" where
  "on_frame s ws Malformed clk = (s, [])"
| "on_frame s ws (Join userId name plan avatar) clk = on_join s ws userId name plan avatar"
| "on_frame s ws (Message name plan text avatar) clk = on_message s ws name plan text avatar clk"
| "on_frame s ws (Dm toId fromName fromPlan text) clk = on_dm s ws toId fromName fromPlan text clk"
| "on_frame s ws (GetDmHistory withId) clk = on_get_dm_history s ws withId"
| "on_frame s ws (Typing name isTyping) clk = on_typing s ws name isTyping"
| "on_frame s ws (DmTyping toId name isTyping) clk = on_dm_typing s ws toId name isTyping"
| "on_frame s ws OtherType clk = (s, [])"

text \<open>
  \<^verbatim>\<open>ws.on('close')\<close>. The library has marked the socket closed and taken it out of
  \<^verbatim>\<open>wss.clients\<close> when the handler runs; \<open>uid\<close> is the closure's \<^verbatim>\<open>connectedUserId\<close>.
\<close>

definition on_close :: "server \<Rightarrow> conn \<Rightarrow> server \<times> (conn \<times> outframe) list" where
  "on_close s ws =
     (let uid = connectedUserId s ws;
          s0 = s\<lparr> clients := AList.delete ws (clients s) \<rparr>
      in if truthy uid then
           (case map_of (userSockets s0) uid of
              None \<Rightarrow> (s0, [])
            | Some _ \<Rightarrow>
                let s1 = s0\<lparr> userSockets := upd_at uid (set_delete ws) (userSockets s0) \<rparr>
                in if (case map_of (userSockets s1) uid of None \<Rightarrow> False | Some sockets \<Rightarrow> length sockets = 0)
                   then
                     let s2 = s1\<lparr> userSockets := AList.delete uid (userSockets s1) \<rparr>;
                         s3 = s2\<lparr> onlineUsers := AList.delete uid (onlineUsers s2) \<rparr>
                     in (s3, broadcastToAll s3 (UserLeft uid)
                             @ broadcastToAll s3 (OnlineUsers (map snd (onlineUsers s3))))
                   else (s1, []))
         else (s0, []))"

text \<open>\<^verbatim>\<open>wss.on('connection')\<close>: a new socket, with \<^verbatim>\<open>connectedUserId = null\<close>.\<close>

definition on_connection :: "server \<Rightarrow> server" where
  "on_connection s = s\<lparr> clients := clients s @ [(next_conn s, None)], next_conn := Suc (next_conn s) \<rparr>"

section \<open>HTTP routes\<close>

record regreq =
  r_name :: jsstr
  r_email :: jsstr
  r_plan :: jsstr
  r_createdAt :: "nat option"
  r_projectsCount :: "nat option"
  r_username :: jsstr
  r_avatar :: jsstr

datatype reg_response = RegBadRequest | RegOk

text \<open>
  \<^verbatim>\<open>POST /api/register-user\<close>. The stored object is
  \<^verbatim>\<open>{ ...existing, ...userObj, createdAt: existing.createdAt || new Date() }\<close>: the fields of
  \<^verbatim>\<open>userObj\<close> replace those of the existing record, a \<^verbatim>\<open>Date\<close> is always truthy.
\<close>

definition register_user :: "server \<Rightarrow> regreq \<Rightarrow> nat \<Rightarrow> server \<times> reg_response" where
  "register_user s req date =
     (if \<not> truthy (r_email req) then (s, RegBadRequest)
      else
        let email = js_str (r_email req);
            existing = map_of (inMemoryUsers s) email;
            merged =
              (case existing of
                 None \<Rightarrow>
                   \<lparr> u_name = r_name req, u_email = email, u_username = r_username req,
                     u_plan = or_else (r_plan req) free, u_avatar = r_avatar req,
                     u_projectsCount = num_or_zero (r_projectsCount req),
                     u_updatedAt = date, u_createdAt = date, u_banned = False \<rparr>
               | Some ex \<Rightarrow>
                   ex\<lparr> u_name := r_name req, u_email := email, u_username := r_username req,
                      u_plan := or_else (r_plan req) free, u_avatar := r_avatar req,
                      u_projectsCount := num_or_zero (r_projectsCount req),
                      u_updatedAt := date, u_createdAt := u_createdAt ex \<rparr>)
        in (s\<lparr> inMemoryUsers := AList.update email merged (inMemoryUsers s) \<rparr>, RegOk))"

text \<open>The decimal digits of a number, as \<^verbatim>\<open>'proj_' + Date.now()\<close> renders it.\<close>

fun dec :: "nat \<Rightarrow> string" where
  "dec n = (if n < 10 then [''0123456789'' ! n] else dec (n div 10) @ [''0123456789'' ! (n mod 10)])"

declare dec.simps [simp del]

text \<open>\<^verbatim>\<open>POST /api/projects\<close>: \<open>body_id\<close> is \<^verbatim>\<open>req.body.id\<close>, \<open>body\<close> the other fields.\<close>

definition create_project :: "server \<Rightarrow> jsstr \<Rightarrow> string \<Rightarrow> nat
    \<Rightarrow> server \<times> (conn \<times> outframe) list \<times> project" where
  "create_project s body_id body date =
     (let proj = \<lparr> pr_id = or_else body_id (''proj_'' @ dec date), pr_votes = 0, pr_views = 0,
                   pr_createdAt = date, pr_body = body \<rparr>;
          s1 = s\<lparr> inMemoryProjects := proj # inMemoryProjects s \<rparr>;
          s2 = (if length (inMemoryProjects s1) > 200
                then s1\<lparr> inMemoryProjects := butlast (inMemoryProjects s1) \<rparr> else s1)
      in (s2, broadcastToAll s2 (NewProject proj), proj))"

datatype vote_response = VoteBadRequest | VoteAlreadyVoted | VoteOk nat

text \<open>\<^verbatim>\<open>proj.votes = (proj.votes || 0) + 1\<close> on the first project \<open>P\<close> holds of.\<close>

fun upd_first :: "('a \<Rightarrow> bool) \<Rightarrow> ('a \<Rightarrow> 'a) \<Rightarrow> 'a list \<Rightarrow> 'a list" where
  "upd_first P f [] = []"
| "upd_first P f (x # xs) = (if P x then f x # xs else x # upd_first P f xs)"

text \<open>
  \<^verbatim>\<open>POST /api/projects/:id/vote\<close>: \<open>pid\<close> is the route parameter \<^verbatim>\<open>id\<close>, \<open>userId\<close> is
  \<^verbatim>\<open>req.body.userId\<close>. The result is the new state, the frames sent and the response.
\<close>

definition vote :: "server \<Rightarrow> string \<Rightarrow> jsstr \<Rightarrow> server \<times> (conn \<times> outframe) list \<times> vote_response" where
  "vote s pid userId =
     (if \<not> truthy userId then (s, [], VoteBadRequest)
      else
        let s1 = (if \<not> map_has (inMemoryVotes s) pid
                  then s\<lparr> inMemoryVotes := AList.update pid [] (inMemoryVotes s) \<rparr> else s)
        in if (case map_of (inMemoryVotes s1) pid of None \<Rightarrow> False
               | Some voters \<Rightarrow> js_str userId \<in> set voters)
           then (s1, [], VoteAlreadyVoted)
           else
             let s2 = s1\<lparr> inMemoryVotes := upd_at pid (set_add (js_str userId)) (inMemoryVotes s1) \<rparr>
             in (case find (\<lambda>p. pr_id p = pid) (inMemoryProjects s2) of
                   Some proj \<Rightarrow>
                     let s3 = s2\<lparr> inMemoryProjects :=
                                upd_first (\<lambda>p. pr_id p = pid) (\<lambda>p. p\<lparr> pr_votes := pr_votes p + 1 \<rparr>)
                                  (inMemoryProjects s2) \<rparr>;
                         newVotes = pr_votes proj + 1
                     in (s3, broadcastToAll s3 (VoteUpdate pid newVotes), VoteOk newVotes)
                 | None \<Rightarrow> (s2, broadcastToAll s2 (VoteUpdate pid 0), VoteOk 0)))"

section \<open>Runs of the server\<close>

text \<open>
  What can happen to the process: a client connects, an open socket delivers a frame or
  closes, a route is called. The library delivers frames and the close only for a socket
  that is open.
\<close>

datatype event =
    Connection
  | Frame conn frame clock
  | Close conn
  | RegisterUser regreq nat
  | CreateProject jsstr string nat
  | Vote string jsstr

fun step :: "server \<Rightarrow> event \<Rightarrow> server" where
  "step s Connection = on_connection s"
| "step s (Frame ws f clk) = (if is_open s ws then fst (on_frame s ws f clk) else s)"
| "step s (Close ws) = (if is_open s ws then fst (on_close s ws) else s)"
| "step s (RegisterUser req date) = fst (register_user s req date)"
| "step s (CreateProject body_id body date) = fst (create_project s body_id body date)"
| "step s (Vote pid userId) = fst (vote s pid userId)"

definition run :: "event list \<Rightarrow> server" where
  "run evs = foldl step init evs"

section \<open>Notions of the specification\<close>

text \<open>The event is a \<^verbatim>\<open>join\<close> frame on connection \<open>c\<close>.\<close>

fun joins_on :: "conn \<Rightarrow> event \<Rightarrow> bool" where
  "joins_on c (Frame ws (Join u n p a) clk) = (ws = c)"
| "joins_on c e = False"

fun is_join :: "frame \<Rightarrow> bool" where
  "is_join (Join u n p a) = True"
| "is_join f = False"

text \<open>The thread two identities share, empty when they have none.\<close>

definition thread_of :: "server \<Rightarrow> jsstr \<Rightarrow> jsstr \<Rightarrow> dmmsg list" where
  "thread_of s a b = (case map_of (dmThreads s) (getDMKey a b) of None \<Rightarrow> [] | Some t \<Rightarrow> t)"


text \<open>No voter set holds the empty string.\<close>

definition votes_nonempty :: "(string \<times> string list) list \<Rightarrow> bool" where
  "votes_nonempty m = list_all (\<lambda>p. [] \<notin> set (snd p)) m"

text \<open>
  The public messages sent: those a \<^verbatim>\<open>message\<close> frame makes the server store, in the
  order of the events. \<open>accepted s e\<close> is what event \<open>e\<close> contributes in state \<open>s\<close>.
\<close>

fun accepted :: "server \<Rightarrow> event \<Rightarrow> pubmsg list" where
  "accepted s (Frame ws (Message n p t a) clk) =
     (if is_open s ws \<and> truthy (connectedUserId s ws)
      then [mk_message (connectedUserId s ws) n p t a clk] else [])"
| "accepted s e = []"

fun sent_from :: "server \<Rightarrow> event list \<Rightarrow> pubmsg list" where
  "sent_from s [] = []"
| "sent_from s (e # es) = accepted s e @ sent_from (step s e) es"

definition sent :: "event list \<Rightarrow> pubmsg list" where
  "sent evs = sent_from init evs"

text \<open>The outbound frame is a \<^verbatim>\<open>history\<close> replay.\<close>

fun is_history :: "outframe \<Rightarrow> bool" where
  "is_history (History ms) = True"
| "is_history f = False"


text \<open>
  The roster lists exactly the identities that have a socket set, no socket set is empty,
  and no identity has two.
\<close>

definition presence_ok :: "server \<Rightarrow> bool" where
  "presence_ok s = (set (map fst (onlineUsers s)) = set (map fst (userSockets s))
     \<and> list_all (\<lambda>p. snd p \<noteq> []) (userSockets s)
     \<and> distinct (map fst (userSockets s)))"

section \<open>Association lists\<close>

lemma map_of_upd_at:
  "map_of (upd_at k f m) k' = (if k' = k then map_option f (map_of m k) else map_of m k')"
  by (induction m) (auto simp: upd_at_def)

lemma map_fst_upd_at: "map fst (upd_at k f m) = map fst m"
  by (induction m) (auto simp: upd_at_def)

lemma getDMKey_some: "getDMKey (Some a) (Some b) = (if a \<le> b then a @ '':'' @ b else b @ '':'' @ a)"
  by (auto simp: getDMKey_def js_sort_def List.map_filter_def)


section \<open>The connections and their identities\<close>

lemma clients_on_frame:
  "clients (fst (on_frame s ws f clk)) =
     (case f of Join u n p a \<Rightarrow> AList.update ws u (clients s) | _ \<Rightarrow> clients s)"
  by (cases f)
     (simp_all add: on_join_def on_message_def on_dm_def on_get_dm_history_def on_typing_def
        on_dm_typing_def Let_def)

lemma clients_on_close: "clients (fst (on_close s ws)) = AList.delete ws (clients s)"
  by (simp add: on_close_def Let_def split: option.splits)

lemma clients_register: "clients (fst (register_user s r d)) = clients s"
  by (simp add: register_user_def Let_def)

lemma clients_create: "clients (fst (create_project s i b d)) = clients s"
  by (simp add: create_project_def Let_def)

lemma clients_vote: "clients (fst (vote s p u)) = clients s"
  by (simp add: vote_def Let_def split: option.splits)

lemma anon_step:
  assumes "connectedUserId s c = None" "\<not> joins_on c e"
  shows "connectedUserId (step s e) c = None"
proof (cases e)
  case Connection
  with assms show ?thesis
    by (auto simp: connectedUserId_def on_connection_def map_add_def split: option.splits)
next
  case (Frame ws f clk)
  with assms clients_on_frame [of s ws f clk] show ?thesis
    by (cases f) (auto simp: connectedUserId_def update_conv' simp del: on_frame.simps)
next
  case (Close ws)
  with assms show ?thesis
    by (auto simp: connectedUserId_def clients_on_close delete_conv')
next
  case (RegisterUser r d)
  with assms show ?thesis by (simp add: connectedUserId_def clients_register)
next
  case (CreateProject i b d)
  with assms show ?thesis by (simp add: connectedUserId_def clients_create)
next
  case (Vote p u)
  with assms show ?thesis by (simp add: connectedUserId_def clients_vote)
qed

lemma anon_run: "\<not> list_ex (joins_on c) evs \<Longrightarrow> connectedUserId (run evs) c = None"
proof (induction evs rule: rev_induct)
  case Nil
  show ?case by (simp add: run_def init_def connectedUserId_def)
next
  case (snoc e evs)
  then show ?case using anon_step [of "run evs" c e] by (simp add: run_def)
qed

lemma anon_drop:
  "connectedUserId s ws = None \<Longrightarrow> \<not> is_join f \<Longrightarrow> on_frame s ws f clk = (s, [])"
  by (cases f)
     (simp_all add: on_message_def on_dm_def on_get_dm_history_def on_typing_def on_dm_typing_def)

section \<open>Frames on an anonymous connection\<close>

text \<open>
  C9. A frame of type \<^verbatim>\<open>message\<close>, \<^verbatim>\<open>dm\<close>, \<^verbatim>\<open>get_dm_history\<close>, \<^verbatim>\<open>typing\<close> or
  \<^verbatim>\<open>dm_typing\<close> (any frame that is not a \<^verbatim>\<open>join\<close>) arriving on a connection on which no
  \<^verbatim>\<open>join\<close> frame arrived before is dropped: the handler returns the state as it was, so no
  buffer, thread, registry or connection changes (the connection stays open), and it sends no
  frame to anyone.
\<close>

theorem anonymous_frames_dropped:
  assumes "\<not> list_ex (joins_on ws) evs" and "\<not> is_join f"
  shows "on_frame (run evs) ws f clk = (run evs, []) \<and> step (run evs) (Frame ws f clk) = run evs"
  using anon_drop [OF anon_run [OF assms(1)] assms(2)] by simp

theorem anonymous_frames_dropped_witness:
  "is_open (run [Connection, Connection,
       Frame 1 (Join (Some ''b'') None None None) \<lparr> id_sample = 1, now = 1 \<rparr>]) 0
   \<and> on_frame (run [Connection, Connection,
       Frame 1 (Join (Some ''b'') None None None) \<lparr> id_sample = 1, now = 1 \<rparr>]) 0
        (Message (Some ''x'') None (Some ''hello'') None) \<lparr> id_sample = 2, now = 2 \<rparr>
      = (run [Connection, Connection,
           Frame 1 (Join (Some ''b'') None None None) \<lparr> id_sample = 1, now = 1 \<rparr>], [])"
  using anonymous_frames_dropped [of 0 "[Connection, Connection,
      Frame 1 (Join (Some ''b'') None None None) \<lparr> id_sample = 1, now = 1 \<rparr>]"
      "Message (Some ''x'') None (Some ''hello'') None" "\<lparr> id_sample = 2, now = 2 \<rparr>"]
  by (simp add: run_def init_def on_connection_def is_open_def on_join_def Let_def)

section \<open>Direct-message threads\<close>

lemma getDMKey_sym: "getDMKey a b = getDMKey b a"
  by (cases a; cases b) (auto simp: getDMKey_def js_sort_def List.map_filter_def)

lemma on_dm_cuid: "connectedUserId (fst (on_dm s ws toId n p t k)) c = connectedUserId s c"
  by (simp add: connectedUserId_def on_dm_def Let_def)

lemma on_dm_thread:
  assumes "connectedUserId s ws = Some a" "a \<noteq> []" "b \<noteq> []" "a \<noteq> b"
  shows "thread_of (fst (on_dm s ws (Some b) n p t k)) (Some a) (Some b)
         = thread_of s (Some a) (Some b) @ [mk_dm (Some a) (Some b) n p t k]"
  using assms
  by (simp add: thread_of_def on_dm_def Let_def map_has_def map_of_upd_at update_conv'
      split: option.splits)

lemma history_reply:
  assumes "connectedUserId s ws = Some a" "a \<noteq> []"
  shows "on_get_dm_history s ws w = (s, [(ws, DmHistory w (thread_of s (Some a) w))])"
  using assms by (simp add: on_get_dm_history_def thread_of_def Let_def)

text \<open>
  C6. \<^verbatim>\<open>getDMKey\<close> is symmetric in its two arguments. For a connection \<open>wa\<close> joined as
  \<open>a\<close> and a connection \<open>wb\<close> joined as another identity \<open>b\<close>: a \<^verbatim>\<open>get_dm_history\<close>
  issued by either party is answered, to the requester only, with the same sequence (the
  thread the pair shares); and after two \<^verbatim>\<open>dm\<close> frames from \<open>a\<close> to \<open>b\<close>, the history
  \<open>b\<close> requests with \<^verbatim>\<open>withId = a\<close> is the earlier thread followed by the two messages
  in send order.
\<close>

theorem dm_thread_shared:
  assumes "connectedUserId s wa = Some a" "a \<noteq> []" "connectedUserId s wb = Some b" "b \<noteq> []"
    and "a \<noteq> b"
  shows "getDMKey x y = getDMKey y x
    \<and> snd (on_frame s wa (GetDmHistory (Some b)) k0)
        = [(wa, DmHistory (Some b) (thread_of s (Some a) (Some b)))]
    \<and> snd (on_frame s wb (GetDmHistory (Some a)) k0)
        = [(wb, DmHistory (Some a) (thread_of s (Some a) (Some b)))]
    \<and> snd (on_frame
             (fst (on_frame (fst (on_frame s wa (Dm (Some b) n1 p1 t1) k1)) wa
                (Dm (Some b) n2 p2 t2) k2))
             wb (GetDmHistory (Some a)) k3)
        = [(wb, DmHistory (Some a)
              (thread_of s (Some a) (Some b)
                @ [mk_dm (Some a) (Some b) n1 p1 t1 k1, mk_dm (Some a) (Some b) n2 p2 t2 k2]))]"
proof -
  let ?s1 = "fst (on_dm s wa (Some b) n1 p1 t1 k1)"
  let ?s2 = "fst (on_dm ?s1 wa (Some b) n2 p2 t2 k2)"
  have sym: "thread_of r (Some b) (Some a) = thread_of r (Some a) (Some b)" for r
    by (simp add: thread_of_def getDMKey_sym [of "Some b" "Some a"])
  have c1: "connectedUserId ?s1 wa = Some a" using assms(1) by (simp add: on_dm_cuid)
  have c2: "connectedUserId ?s2 wb = Some b" using assms(3) by (simp add: on_dm_cuid)
  have t1: "thread_of ?s1 (Some a) (Some b)
            = thread_of s (Some a) (Some b) @ [mk_dm (Some a) (Some b) n1 p1 t1 k1]"
    by (rule on_dm_thread [OF assms(1,2,4,5)])
  have t2: "thread_of ?s2 (Some a) (Some b)
            = thread_of ?s1 (Some a) (Some b) @ [mk_dm (Some a) (Some b) n2 p2 t2 k2]"
    by (rule on_dm_thread [OF c1 assms(2,4,5)])
  show ?thesis
    using history_reply [OF assms(1,2)] history_reply [OF assms(3,4)] history_reply [OF c2 assms(4)]
    by (simp add: getDMKey_sym [of x y] sym t1 t2)
qed

text \<open>The definitions a concrete run is evaluated with.\<close>

lemmas exec_defs = run_def init_def on_connection_def is_open_def on_join_def on_message_def
  on_dm_def on_get_dm_history_def on_close_def connectedUserId_def broadcastToAll_def
  sendToUser_def map_has_def upd_at_def set_add_def set_delete_def Let_def create_project_def
  vote_def register_user_def mk_message_def mk_dm_def slice_last_def slice_to_def

theorem dm_thread_shared_witness:
  "connectedUserId (run [Connection, Connection,
        Frame 0 (Join (Some ''a'') None None None) \<lparr> id_sample = 1, now = 1 \<rparr>,
        Frame 1 (Join (Some ''b'') None None None) \<lparr> id_sample = 2, now = 2 \<rparr>]) 0 = Some ''a''
   \<and> connectedUserId (run [Connection, Connection,
        Frame 0 (Join (Some ''a'') None None None) \<lparr> id_sample = 1, now = 1 \<rparr>,
        Frame 1 (Join (Some ''b'') None None None) \<lparr> id_sample = 2, now = 2 \<rparr>]) 1 = Some ''b''
   \<and> getDMKey (Some ''b'') (Some ''a'') = getDMKey (Some ''a'') (Some ''b'')
   \<and> snd (on_frame
        (fst (on_frame (fst (on_frame
           (run [Connection, Connection,
              Frame 0 (Join (Some ''a'') None None None) \<lparr> id_sample = 1, now = 1 \<rparr>,
              Frame 1 (Join (Some ''b'') None None None) \<lparr> id_sample = 2, now = 2 \<rparr>])
           0 (Dm (Some ''b'') (Some ''Al'') None (Some ''hi'')) \<lparr> id_sample = 3, now = 3 \<rparr>))
           0 (Dm (Some ''b'') (Some ''Al'') None (Some ''again'')) \<lparr> id_sample = 4, now = 4 \<rparr>))
        1 (GetDmHistory (Some ''a'')) \<lparr> id_sample = 5, now = 5 \<rparr>)
      = [(1, DmHistory (Some ''a'')
            [mk_dm (Some ''a'') (Some ''b'') (Some ''Al'') None (Some ''hi'') \<lparr> id_sample = 3, now = 3 \<rparr>,
             mk_dm (Some ''a'') (Some ''b'') (Some ''Al'') None (Some ''again'') \<lparr> id_sample = 4, now = 4 \<rparr>])]"
proof -
  let ?s = "run [Connection, Connection,
        Frame 0 (Join (Some ''a'') None None None) \<lparr> id_sample = 1, now = 1 \<rparr>,
        Frame 1 (Join (Some ''b'') None None None) \<lparr> id_sample = 2, now = 2 \<rparr>]"
  have a: "connectedUserId ?s 0 = Some ''a''" by (simp add: exec_defs)
  have b: "connectedUserId ?s 1 = Some ''b''" by (simp add: exec_defs)
  have t: "thread_of ?s (Some ''a'') (Some ''b'') = []" by (simp add: thread_of_def exec_defs)
  show ?thesis
    using dm_thread_shared [OF a _ b, of "Some ''b''" "Some ''a''" "\<lparr> id_sample = 0, now = 0 \<rparr>"
        "Some ''Al''" None "Some ''hi''" "\<lparr> id_sample = 3, now = 3 \<rparr>"
        "Some ''Al''" None "Some ''again''" "\<lparr> id_sample = 4, now = 4 \<rparr>" "\<lparr> id_sample = 5, now = 5 \<rparr>"]
      a b t
    by simp
qed

section \<open>Votes\<close>

lemma set_update_subset: "set (AList.update k v al) \<subseteq> insert (k, v) (set al)"
  by (induction al) auto

lemma votes_on_frame: "inMemoryVotes (fst (on_frame s ws f clk)) = inMemoryVotes s"
  by (cases f)
     (simp_all add: on_join_def on_message_def on_dm_def on_get_dm_history_def on_typing_def
        on_dm_typing_def Let_def)

lemma votes_on_close: "inMemoryVotes (fst (on_close s ws)) = inMemoryVotes s"
  by (simp add: on_close_def Let_def split: option.splits)

lemma votes_nonempty_vote:
  assumes "votes_nonempty (inMemoryVotes s)"
  shows "votes_nonempty (inMemoryVotes (fst (vote s pid userId)))"
proof (cases userId)
  case None
  with assms show ?thesis by (simp add: vote_def)
next
  case (Some u)
  have a: "votes_nonempty (AList.update pid [] (inMemoryVotes s))"
    using assms set_update_subset [of pid "[]" "inMemoryVotes s"]
    by (auto simp: votes_nonempty_def list_all_iff)
  have b: "u \<noteq> [] \<Longrightarrow> votes_nonempty m \<Longrightarrow> votes_nonempty (upd_at pid (set_add u) m)" for m
    by (auto simp: votes_nonempty_def list_all_iff upd_at_def set_add_def split: if_splits)
  show ?thesis
    using assms a b Some
    by (auto simp: vote_def Let_def split: option.splits)
qed

lemma votes_nonempty_step:
  "votes_nonempty (inMemoryVotes s) \<Longrightarrow> votes_nonempty (inMemoryVotes (step s e))"
  by (cases e)
     (simp_all add: votes_on_frame votes_on_close votes_nonempty_vote on_connection_def
        register_user_def create_project_def Let_def)

lemma votes_nonempty_run: "votes_nonempty (inMemoryVotes (run evs))"
proof (induction evs rule: rev_induct)
  case Nil
  show ?case by (simp add: run_def init_def votes_nonempty_def)
next
  case (snoc e evs)
  then show ?case using votes_nonempty_step [of "run evs" e] by (simp add: run_def)
qed

lemma vote_member:
  assumes "map_of (inMemoryVotes s) pid = Some voters" "u \<in> set voters" "u \<noteq> []"
  shows "vote s pid (Some u) = (s, [], VoteAlreadyVoted)"
  using assms by (simp add: vote_def map_has_def)

text \<open>
  C2. In every state the server reaches, a vote whose \<open>userId\<close> is already in the target's
  voter set is answered \<^verbatim>\<open>{ ok: false, reason: 'already_voted' }\<close>, changes nothing (neither
  a counter nor a voter set), and sends nothing; so any number of retries of the same vote
  leaves the state as it was and each is answered the same way.
\<close>

theorem duplicate_vote_rejected:
  assumes "map_of (inMemoryVotes (run evs)) pid = Some voters" and "u \<in> set voters"
  shows "vote (run evs) pid (Some u) = (run evs, [], VoteAlreadyVoted)
       \<and> foldl step (run evs) (replicate n (Vote pid (Some u))) = run evs"
proof -
  have "(pid, voters) \<in> set (inMemoryVotes (run evs))"
    using assms(1) by (rule map_of_SomeD)
  with votes_nonempty_run [of evs] assms(2) have ne: "u \<noteq> []"
    by (auto simp: votes_nonempty_def list_all_iff)
  have v: "vote (run evs) pid (Some u) = (run evs, [], VoteAlreadyVoted)"
    by (rule vote_member [OF assms ne])
  have "foldl step (run evs) (replicate n (Vote pid (Some u))) = run evs"
    by (induction n) (simp_all add: v)
  with v show ?thesis by simp
qed

theorem duplicate_vote_rejected_witness:
  "map_of (inMemoryVotes (run [CreateProject (Some ''p1'') ''demo'' 7, Vote ''p1'' (Some ''u1'')])) ''p1''
     = Some [''u1'']
   \<and> vote (run [CreateProject (Some ''p1'') ''demo'' 7, Vote ''p1'' (Some ''u1'')]) ''p1'' (Some ''u1'')
     = (run [CreateProject (Some ''p1'') ''demo'' 7, Vote ''p1'' (Some ''u1'')], [], VoteAlreadyVoted)
   \<and> map pr_votes (inMemoryProjects
        (run [CreateProject (Some ''p1'') ''demo'' 7, Vote ''p1'' (Some ''u1''),
              Vote ''p1'' (Some ''u1''), Vote ''p1'' (Some ''u1'')])) = [1]"
proof -
  let ?evs = "[CreateProject (Some ''p1'') ''demo'' 7, Vote ''p1'' (Some ''u1'')]"
  have m: "map_of (inMemoryVotes (run ?evs)) ''p1'' = Some [''u1'']"
    by (simp add: run_def init_def create_project_def vote_def Let_def map_has_def upd_at_def
        set_add_def)
  have p: "map pr_votes (inMemoryProjects (run ?evs)) = [1]"
    by (simp add: run_def init_def create_project_def vote_def Let_def map_has_def upd_at_def
        set_add_def)
  from duplicate_vote_rejected [OF m, of "''u1''" 2] have
    "vote (run ?evs) ''p1'' (Some ''u1'') = (run ?evs, [], VoteAlreadyVoted)"
    and "foldl step (run ?evs) (replicate 2 (Vote ''p1'' (Some ''u1''))) = run ?evs"
    by simp_all
  moreover have "run (?evs @ [Vote ''p1'' (Some ''u1''), Vote ''p1'' (Some ''u1'')])
      = foldl step (run ?evs) (replicate 2 (Vote ''p1'' (Some ''u1'')))"
    by (simp add: run_def numeral_2_eq_2)
  ultimately show ?thesis using m p by simp
qed


section \<open>A first vote\<close>




lemma broadcast_all: "broadcastToAll s x = map (\<lambda>c. (c, x)) (map fst (clients s))"
  by (simp add: broadcastToAll_def is_open_def)






section \<open>Registration\<close>






section \<open>The public buffer\<close>

lemma slice_last_length: "length (slice_last n xs) = min n (length xs)"
  by (simp add: slice_last_def)

lemma slice_last_append: "slice_last n (slice_last n xs @ zs) = slice_last n (xs @ zs)"
  by (cases "n \<le> length xs") (simp_all add: slice_last_def add.commute)

lemma slice_last_slice_last: "m \<le> n \<Longrightarrow> slice_last m (slice_last n xs) = slice_last m xs"
  by (cases "n \<le> length xs") (simp_all add: slice_last_def)

lemma slice_last_short: "length xs \<le> n \<Longrightarrow> slice_last n xs = xs"
  by (simp add: slice_last_def)

lemma push_shift:
  assumes "length xs \<le> 200"
  shows "(if length (xs @ [m]) > 200 then tl (xs @ [m]) else xs @ [m]) = slice_last 200 (xs @ [m])"
proof (cases "length xs = 200")
  case True
  then have "xs \<noteq> []" by auto
  with True show ?thesis by (simp add: slice_last_def drop_Suc)
next
  case False
  with assms show ?thesis by (simp add: slice_last_def)
qed

lemma pm_on_message:
  "publicMessages (fst (on_message s ws n p t a clk)) =
     (if truthy (connectedUserId s ws)
      then (if length (publicMessages s @ [mk_message (connectedUserId s ws) n p t a clk]) > 200
            then tl (publicMessages s @ [mk_message (connectedUserId s ws) n p t a clk])
            else publicMessages s @ [mk_message (connectedUserId s ws) n p t a clk])
      else publicMessages s)"
  by (simp add: on_message_def Let_def)

lemma pm_on_frame_other:
  "\<forall>n p t a. f \<noteq> Message n p t a \<Longrightarrow> publicMessages (fst (on_frame s ws f clk)) = publicMessages s"
  by (cases f)
     (simp_all add: on_join_def on_dm_def on_get_dm_history_def on_typing_def
        on_dm_typing_def Let_def)

lemma pm_on_close: "publicMessages (fst (on_close s ws)) = publicMessages s"
  by (simp add: on_close_def Let_def split: option.splits)

lemma pm_step:
  assumes "length (publicMessages s) \<le> 200"
  shows "publicMessages (step s e) = slice_last 200 (publicMessages s @ accepted s e)"
proof (cases e)
  case (Frame ws f clk)
  show ?thesis
  proof (cases f)
    case (Message n p t a)
    with Frame assms show ?thesis
      using push_shift [OF assms, of "mk_message (connectedUserId s ws) n p t a clk"]
      by (simp add: pm_on_message slice_last_short)
  qed (use Frame assms pm_on_frame_other [of f s ws clk] in
       \<open>simp_all add: slice_last_short del: on_frame.simps\<close>)
qed (use assms in \<open>simp_all add: slice_last_short pm_on_close on_connection_def register_user_def
       create_project_def vote_def Let_def split: option.splits\<close>)

lemma pm_foldl:
  "length (publicMessages s) \<le> 200 \<Longrightarrow>
   publicMessages (foldl step s evs) = slice_last 200 (publicMessages s @ sent_from s evs)"
proof (induction evs arbitrary: s)
  case Nil
  then show ?case by (simp add: slice_last_short)
next
  case (Cons e evs)
  have l: "length (publicMessages (step s e)) \<le> 200"
    by (simp add: pm_step [OF Cons.prems] slice_last_length)
  show ?case
    using Cons.IH [OF l] slice_last_append [of 200 "publicMessages s @ accepted s e" "sent_from (step s e) evs"]
    by (simp add: pm_step [OF Cons.prems])
qed

lemma pm_run: "publicMessages (run evs) = slice_last 200 (sent evs)"
  using pm_foldl [of init evs] by (simp add: run_def sent_def init_def)

lemma pm_run_length: "length (publicMessages (run evs)) \<le> 200"
  by (simp add: pm_run slice_last_length)

section \<open>Open connections\<close>









lemma message_effect:
  assumes "truthy (connectedUserId s ws)"
  shows "on_message s ws n p t a clk =
     (s\<lparr> publicMessages :=
          (if length (publicMessages s @ [mk_message (connectedUserId s ws) n p t a clk]) > 200
           then tl (publicMessages s @ [mk_message (connectedUserId s ws) n p t a clk])
           else publicMessages s @ [mk_message (connectedUserId s ws) n p t a clk]) \<rparr>,
      map (\<lambda>c. (c, MessageEv (mk_message (connectedUserId s ws) n p t a clk))) (map fst (clients s)))"
  using assms by (simp add: on_message_def Let_def broadcast_all)

lemma last_push_shift:
  "last (if length (xs @ [m]) > 200 then tl (xs @ [m]) else xs @ [m]) = m"
  by (cases xs) (auto simp: last_tl)

text \<open>
  C8. After every sequence of events the public buffer holds at most 200 messages, and it
  is the last 200 (or all, when fewer) of the messages sent, in the order they were sent.
  A \<^verbatim>\<open>message\<close> frame on a joined connection appends its message at the end; when the
  buffer was full (200) exactly the oldest message, the head, is dropped, otherwise none.
\<close>

theorem public_buffer_bounded:
  assumes "truthy (connectedUserId (run evs) ws)"
  shows "length (publicMessages (run evs)) \<le> 200
    \<and> publicMessages (run evs) = slice_last 200 (sent evs)
    \<and> publicMessages (fst (on_frame (run evs) ws (Message n p t a) clk))
        = (if length (publicMessages (run evs)) < 200
           then publicMessages (run evs) @ [mk_message (connectedUserId (run evs) ws) n p t a clk]
           else tl (publicMessages (run evs)) @ [mk_message (connectedUserId (run evs) ws) n p t a clk])
    \<and> length (publicMessages (fst (on_frame (run evs) ws (Message n p t a) clk))) \<le> 200"
proof -
  have l: "length (publicMessages (run evs)) \<le> 200" by (rule pm_run_length)
  have ne: "length (publicMessages (run evs)) = 200 \<Longrightarrow> publicMessages (run evs) \<noteq> []" by auto
  show ?thesis
    using l ne by (auto simp: message_effect [OF assms] pm_run [symmetric])
qed

theorem public_buffer_bounded_witness:
  "truthy (connectedUserId (run [Connection,
       Frame 0 (Join (Some ''a'') None None None) \<lparr> id_sample = 1, now = 1 \<rparr>,
       Frame 0 (Message (Some ''Al'') None (Some ''one'') None) \<lparr> id_sample = 2, now = 2 \<rparr>]) 0)
   \<and> map m_text (publicMessages (fst (on_frame (run [Connection,
       Frame 0 (Join (Some ''a'') None None None) \<lparr> id_sample = 1, now = 1 \<rparr>,
       Frame 0 (Message (Some ''Al'') None (Some ''one'') None) \<lparr> id_sample = 2, now = 2 \<rparr>]) 0
         (Message (Some ''Al'') None (Some ''two'') None) \<lparr> id_sample = 3, now = 3 \<rparr>)))
     = [''one'', ''two'']"
proof -
  let ?evs = "[Connection,
       Frame 0 (Join (Some ''a'') None None None) \<lparr> id_sample = 1, now = 1 \<rparr>,
       Frame 0 (Message (Some ''Al'') None (Some ''one'') None) \<lparr> id_sample = 2, now = 2 \<rparr>]"
  have c: "connectedUserId (run ?evs) 0 = Some ''a''" by (simp add: exec_defs)
  have t: "truthy (connectedUserId (run ?evs) 0)" unfolding c by simp
  have p: "map m_text (publicMessages (run ?evs)) = [''one'']" by (simp add: exec_defs)
  have l: "length (publicMessages (run ?evs)) = 1" using p by (metis length_map list.size(3,4) One_nat_def add.left_neutral)
  have x: "map m_text (publicMessages (fst (on_frame (run ?evs) 0
         (Message (Some ''Al'') None (Some ''two'') None) \<lparr> id_sample = 3, now = 3 \<rparr>)))
     = [''one'', ''two'']"
    using public_buffer_bounded [OF t, of "Some ''Al''" None "Some ''two''" None
        "\<lparr> id_sample = 3, now = 3 \<rparr>"] p l
    by (simp add: mk_message_def slice_to_def)
  show ?thesis by (intro conjI t x)
qed

section \<open>Replay at join\<close>

text \<open>
  C4. A \<^verbatim>\<open>join\<close> frame on connection \<open>ws\<close> sends exactly one \<^verbatim>\<open>history\<close> frame, to
  \<open>ws\<close> and to no other connection; it carries the last 50 of all the public messages sent
  so far (all of them when fewer than 50 were sent), in the order they were sent, so
  \<open>min 50 (total sent)\<close> messages: 50 once 500 were sent.
\<close>

theorem join_replay_bounded:
  "filter (\<lambda>x. is_history (snd x)) (snd (on_frame (run evs) ws (Join u n p a) clk))
     = [(ws, History (drop (length (sent evs) - 50) (sent evs)))]
   \<and> length (drop (length (sent evs) - 50) (sent evs)) = min 50 (length (sent evs))"
proof -
  have "slice_last 50 (publicMessages (run evs)) = slice_last 50 (sent evs)"
    by (simp add: pm_run slice_last_slice_last)
  then show ?thesis
    by (auto simp: on_join_def Let_def broadcast_all filter_map comp_def slice_last_def)
qed

theorem join_replay_bounded_witness:
  "filter (\<lambda>x. is_history (snd x)) (snd (on_frame (run [Connection,
       Frame 0 (Join (Some ''a'') None None None) \<lparr> id_sample = 1, now = 1 \<rparr>,
       Frame 0 (Message (Some ''Al'') None (Some ''one'') None) \<lparr> id_sample = 2, now = 2 \<rparr>,
       Frame 0 (Message (Some ''Al'') None (Some ''two'') None) \<lparr> id_sample = 3, now = 3 \<rparr>,
       Connection]) 1 (Join (Some ''b'') None None None) \<lparr> id_sample = 4, now = 4 \<rparr>))
   = [(1, History
        [\<lparr> m_id = 2, m_userId = Some ''a'', m_name = ''Al'', m_plan = ''free'', m_text = ''one'',
            m_timestamp = 2, m_avatar = bust \<rparr>,
         \<lparr> m_id = 3, m_userId = Some ''a'', m_name = ''Al'', m_plan = ''free'', m_text = ''two'',
            m_timestamp = 3, m_avatar = bust \<rparr>])]"
proof -
  let ?evs = "[Connection,
       Frame 0 (Join (Some ''a'') None None None) \<lparr> id_sample = 1, now = 1 \<rparr>,
       Frame 0 (Message (Some ''Al'') None (Some ''one'') None) \<lparr> id_sample = 2, now = 2 \<rparr>,
       Frame 0 (Message (Some ''Al'') None (Some ''two'') None) \<lparr> id_sample = 3, now = 3 \<rparr>,
       Connection]"
  have s: "sent ?evs =
        [\<lparr> m_id = 2, m_userId = Some ''a'', m_name = ''Al'', m_plan = ''free'', m_text = ''one'',
            m_timestamp = 2, m_avatar = bust \<rparr>,
         \<lparr> m_id = 3, m_userId = Some ''a'', m_name = ''Al'', m_plan = ''free'', m_text = ''two'',
            m_timestamp = 3, m_avatar = bust \<rparr>]"
    by (simp add: sent_def exec_defs free_def)
  show ?thesis
    using join_replay_bounded [of ?evs 1 "Some ''b''" None None None "\<lparr> id_sample = 4, now = 4 \<rparr>"]
    unfolding s by simp
qed

section \<open>A public message\<close>



section \<open>Sender display fields\<close>

lemma on_message_cuid: "connectedUserId (fst (on_message s ws n p t a clk)) c = connectedUserId s c"
  by (simp add: connectedUserId_def on_message_def Let_def)

lemma on_dm_thread_last:
  assumes "truthy (connectedUserId s ws)" "truthy toId" "toId \<noteq> connectedUserId s ws"
  shows "thread_of (fst (on_dm s ws toId n p t k)) (connectedUserId s ws) toId
         = thread_of s (connectedUserId s ws) toId @ [mk_dm (connectedUserId s ws) toId n p t k]"
  using assms
  by (simp add: thread_of_def on_dm_def Let_def map_has_def map_of_upd_at update_conv'
      split: option.splits)

lemma roster_cuid: "connectedUserId (s\<lparr> onlineUsers := r \<rparr>) c = connectedUserId s c"
  by (simp add: connectedUserId_def)

lemma roster_thread: "thread_of (s\<lparr> onlineUsers := r \<rparr>) a b = thread_of s a b"
  by (simp add: thread_of_def)

lemma push_shift_app:
  "(if length (xs @ [m]) > 200 then tl (xs @ [m]) else xs @ [m])
     = (if 200 \<le> length xs then tl xs else xs) @ [m]"
  by (cases xs) auto

lemma last_two:
  "slice_last 2 (if length ((ys @ [m1]) @ [m2]) > 200 then tl ((ys @ [m1]) @ [m2])
                 else (ys @ [m1]) @ [m2]) = [m1, m2]"
  by (cases ys) (simp_all add: slice_last_def)

lemma message_last:
  assumes "truthy (connectedUserId s ws)"
  shows "last (publicMessages (fst (on_message s ws n p t a clk)))
         = mk_message (connectedUserId s ws) n p t a clk"
  using last_push_shift [of "publicMessages s" "mk_message (connectedUserId s ws) n p t a clk"]
  by (simp add: message_effect [OF assms])

text \<open>
  C10. On a joined connection the stored public message takes its name, plan and avatar from
  the frame that carries it (\<^verbatim>\<open>'Anonyme'\<close>, \<^verbatim>\<open>'free'\<close> and the bust emoji when the field
  is absent or empty) and its \<open>userId\<close> from the identity bound to the connection; the
  stored direct message takes \<open>fromName\<close> and \<open>fromPlan\<close> from its frame in the same way
  and \<open>fromId\<close> from the connection. Neither depends on the presence registry: the result
  is the same whatever \<open>onlineUsers\<close> holds. Two \<^verbatim>\<open>message\<close> frames on the same
  connection with the names \<open>n1\<close> and \<open>n2\<close> are stored, in that order, under the names
  \<open>n1\<close> and \<open>n2\<close>.
\<close>

theorem sender_fields_from_frame:
  assumes "truthy (connectedUserId s ws)"
  shows "last (publicMessages (fst (on_frame (s\<lparr> onlineUsers := roster \<rparr>) ws (Message n p t a) clk)))
      = \<lparr> m_id = id_sample clk, m_userId = connectedUserId s ws, m_name = or_else n ''Anonyme'',
          m_plan = or_else p ''free'', m_text = take 500 (or_else t []), m_timestamp = now clk,
          m_avatar = or_else a bust \<rparr>
    \<and> (truthy toId \<and> toId \<noteq> connectedUserId s ws \<longrightarrow>
        last (thread_of (fst (on_frame (s\<lparr> onlineUsers := roster \<rparr>) ws (Dm toId fn fp t) clk))
               (connectedUserId s ws) toId)
        = \<lparr> d_id = id_sample clk, d_fromId = connectedUserId s ws, d_fromName = or_else fn ''Anonyme'',
            d_fromPlan = or_else fp ''free'', d_toId = toId, d_text = take 500 (or_else t []),
            d_timestamp = now clk, d_read = False \<rparr>)
    \<and> (n1 \<noteq> [] \<and> n2 \<noteq> [] \<and> n1 \<noteq> n2 \<longrightarrow>
        map m_name (slice_last 2 (publicMessages
          (fst (on_frame (fst (on_frame s ws (Message (Some n1) p t a) clk)) ws
                  (Message (Some n2) p' t' a') clk'))))
        = [n1, n2])"
proof -
  let ?r = "s\<lparr> onlineUsers := roster \<rparr>"
  have tr: "truthy (connectedUserId ?r ws)" using assms by (simp add: roster_cuid)
  have a: "last (publicMessages (fst (on_frame ?r ws (Message n p t a) clk)))
      = \<lparr> m_id = id_sample clk, m_userId = connectedUserId s ws, m_name = or_else n ''Anonyme'',
          m_plan = or_else p ''free'', m_text = take 500 (or_else t []), m_timestamp = now clk,
          m_avatar = or_else a bust \<rparr>"
    using message_last [OF tr, of n p t a clk]
    by (simp add: roster_cuid mk_message_def Anonyme_def free_def slice_to_def)
  have b: "last (thread_of (fst (on_frame ?r ws (Dm toId fn fp t) clk)) (connectedUserId s ws) toId)
        = \<lparr> d_id = id_sample clk, d_fromId = connectedUserId s ws, d_fromName = or_else fn ''Anonyme'',
            d_fromPlan = or_else fp ''free'', d_toId = toId, d_text = take 500 (or_else t []),
            d_timestamp = now clk, d_read = False \<rparr>"
    if "truthy toId" "toId \<noteq> connectedUserId s ws"
    using on_dm_thread_last [OF tr, of toId fn fp t clk] that
    by (simp add: roster_cuid mk_dm_def Anonyme_def free_def slice_to_def)
  let ?s1 = "fst (on_message s ws (Some n1) p t a clk)"
  let ?m1 = "mk_message (connectedUserId s ws) (Some n1) p t a clk"
  let ?m2 = "mk_message (connectedUserId s ws) (Some n2) p' t' a' clk'"
  have t1: "truthy (connectedUserId ?s1 ws)" using assms by (simp add: on_message_cuid)
  have c: "map m_name (slice_last 2 (publicMessages (fst (on_message ?s1 ws (Some n2) p' t' a' clk'))))
        = [n1, n2]" if "n1 \<noteq> []" "n2 \<noteq> []"
  proof -
    define ys where
      "ys = (if 200 \<le> length (publicMessages s) then tl (publicMessages s) else publicMessages s)"
    have p1: "publicMessages ?s1 = ys @ [?m1]"
      using push_shift_app [of "publicMessages s" ?m1]
      by (simp add: message_effect [OF assms] ys_def)
    have e2: "publicMessages (fst (on_message ?s1 ws (Some n2) p' t' a' clk'))
        = (if length (publicMessages ?s1 @ [mk_message (connectedUserId ?s1 ws) (Some n2) p' t' a' clk']) > 200
           then tl (publicMessages ?s1 @ [mk_message (connectedUserId ?s1 ws) (Some n2) p' t' a' clk'])
           else publicMessages ?s1 @ [mk_message (connectedUserId ?s1 ws) (Some n2) p' t' a' clk'])"
      by (simp add: message_effect [OF t1])
    have p2: "slice_last 2 (publicMessages (fst (on_message ?s1 ws (Some n2) p' t' a' clk'))) = [?m1, ?m2]"
      by (simp only: e2 p1 on_message_cuid last_two)
    show ?thesis using that by (simp add: p2 mk_message_def)
  qed
  show ?thesis using a b c by simp
qed

theorem sender_fields_from_frame_witness:
  "truthy (connectedUserId (run [Connection,
       Frame 0 (Join (Some ''a'') (Some ''Alice'') (Some ''pro'') None) \<lparr> id_sample = 1, now = 1 \<rparr>]) 0)
   \<and> map p_name (map snd (onlineUsers (run [Connection,
       Frame 0 (Join (Some ''a'') (Some ''Alice'') (Some ''pro'') None) \<lparr> id_sample = 1, now = 1 \<rparr>])))
       = [''Alice'']
   \<and> last (publicMessages (fst (on_frame (run [Connection,
           Frame 0 (Join (Some ''a'') (Some ''Alice'') (Some ''pro'') None) \<lparr> id_sample = 1, now = 1 \<rparr>]) 0
             (Message (Some ''Bob'') None (Some ''x'') None) \<lparr> id_sample = 2, now = 2 \<rparr>)))
       = \<lparr> m_id = 2, m_userId = Some ''a'', m_name = ''Bob'', m_plan = ''free'', m_text = ''x'',
           m_timestamp = 2, m_avatar = bust \<rparr>
   \<and> map m_name (slice_last 2 (publicMessages (fst (on_frame (fst (on_frame (run [Connection,
           Frame 0 (Join (Some ''a'') (Some ''Alice'') (Some ''pro'') None) \<lparr> id_sample = 1, now = 1 \<rparr>]) 0
             (Message (Some ''Bob'') None (Some ''x'') None) \<lparr> id_sample = 2, now = 2 \<rparr>)) 0
             (Message (Some ''Eve'') None (Some ''x'') None) \<lparr> id_sample = 3, now = 3 \<rparr>))))
       = [''Bob'', ''Eve'']"
proof -
  let ?s = "run [Connection,
       Frame 0 (Join (Some ''a'') (Some ''Alice'') (Some ''pro'') None) \<lparr> id_sample = 1, now = 1 \<rparr>]"
  have c: "connectedUserId ?s 0 = Some ''a''" by (simp add: exec_defs)
  have t: "truthy (connectedUserId ?s 0)" unfolding c by simp
  have r: "map p_name (map snd (onlineUsers ?s)) = [''Alice'']" by (simp add: exec_defs)
  have i: "?s\<lparr> onlineUsers := onlineUsers ?s \<rparr> = ?s" by simp
  note th = sender_fields_from_frame [OF t, where roster = "onlineUsers ?s" and n = "Some ''Bob''"
        and p = None and t = "Some ''x''" and a = None and clk = "\<lparr> id_sample = 2, now = 2 \<rparr>"
        and toId = "Some ''b''" and fn = None and fp = None and ?n1.0 = "''Bob''" and ?n2.0 = "''Eve''"
        and p' = None and t' = "Some ''x''" and a' = None and clk' = "\<lparr> id_sample = 3, now = 3 \<rparr>"]
  have x: "last (publicMessages (fst (on_frame ?s 0
             (Message (Some ''Bob'') None (Some ''x'') None) \<lparr> id_sample = 2, now = 2 \<rparr>)))
       = \<lparr> m_id = 2, m_userId = Some ''a'', m_name = ''Bob'', m_plan = ''free'', m_text = ''x'',
           m_timestamp = 2, m_avatar = bust \<rparr>"
    using th unfolding i c by simp
  have y: "map m_name (slice_last 2 (publicMessages (fst (on_frame (fst (on_frame ?s 0
             (Message (Some ''Bob'') None (Some ''x'') None) \<lparr> id_sample = 2, now = 2 \<rparr>)) 0
             (Message (Some ''Eve'') None (Some ''x'') None) \<lparr> id_sample = 3, now = 3 \<rparr>))))
       = [''Bob'', ''Eve'']"
    using th by simp
  show ?thesis by (intro conjI t r x y)
qed

section \<open>The presence roster\<close>

text \<open>
  What the join and close handlers do maintain: an identity is in the roster exactly when
  \<open>userSockets\<close> holds a non-empty socket set for it. The set may hold sockets that are
  closed, and a join without a \<open>userId\<close> registers a roster entry that no close removes.
\<close>

lemma set_add_nonempty: "set_add x xs \<noteq> []"
  by (auto simp: set_add_def)

lemma upd_at_nonempty:
  assumes "list_all (\<lambda>p. fst p \<noteq> k \<longrightarrow> snd p \<noteq> []) m" "\<And>v. f v \<noteq> []"
  shows "list_all (\<lambda>p. snd p \<noteq> []) (upd_at k f m)"
  using assms by (auto simp: upd_at_def list_all_iff split: if_splits)

lemma update_empty_others:
  "list_all (\<lambda>p. snd p \<noteq> []) m \<Longrightarrow> list_all (\<lambda>p. fst p \<noteq> k \<longrightarrow> snd p \<noteq> []) (AList.update k [] m)"
  using set_update_subset [of k "[]" m] by (auto simp: list_all_iff)

lemma presence_join:
  assumes "presence_ok s"
  shows "presence_ok (fst (on_join s ws u n p a))"
proof -
  let ?us = "if map_has (userSockets s) u then userSockets s else AList.update u [] (userSockets s)"
  have k: "set (map fst ?us) = insert u (set (map fst (userSockets s)))"
    using dom_update [of u "[]" "userSockets s"]
    by (auto simp: map_has_def map_of_eq_None_iff)
  have d: "distinct (map fst ?us)" using assms by (simp add: presence_ok_def distinct_update)
  have o: "list_all (\<lambda>p. fst p \<noteq> u \<longrightarrow> snd p \<noteq> []) ?us"
    using assms update_empty_others [of "userSockets s" u]
    by (auto simp: presence_ok_def list_all_iff)
  have n: "list_all (\<lambda>p. snd p \<noteq> []) (upd_at u (set_add ws) ?us)"
    by (rule upd_at_nonempty [OF o set_add_nonempty])
  have e: "userSockets (fst (on_join s ws u n p a)) = upd_at u (set_add ws) ?us"
    by (simp add: on_join_def Let_def)
  have f: "onlineUsers (fst (on_join s ws u n p a))
      = AList.update u \<lparr> p_id = u, p_name = or_else n Anonyme, p_plan = or_else p free,
                   p_avatar = or_else a bust \<rparr> (onlineUsers s)"
    by (simp add: on_join_def Let_def)
  have ko: "set (map fst (onlineUsers (fst (on_join s ws u n p a)))) = insert u (set (map fst (onlineUsers s)))"
    unfolding f using dom_update [of u _ "onlineUsers s"] by auto
  show ?thesis
    unfolding presence_ok_def e ko
    using k d n assms by (simp add: map_fst_upd_at presence_ok_def)
qed

lemma upd_at_other:
  "list_all (\<lambda>p. snd p \<noteq> []) m \<Longrightarrow> list_all (\<lambda>p. fst p \<noteq> k \<longrightarrow> snd p \<noteq> []) (upd_at k f m)"
  by (auto simp: upd_at_def list_all_iff split: if_splits)

lemma delete_nonempty:
  "list_all (\<lambda>p. fst p \<noteq> k \<longrightarrow> snd p \<noteq> []) m \<Longrightarrow> list_all (\<lambda>p. snd p \<noteq> []) (AList.delete k m)"
  by (auto simp: list_all_iff AList.delete_eq)

lemma distinct_key_nonempty:
  assumes "distinct (map fst m)" "list_all (\<lambda>p. fst p \<noteq> k \<longrightarrow> snd p \<noteq> []) m"
    "map_of m k = Some v" "v \<noteq> []"
  shows "list_all (\<lambda>p. snd p \<noteq> []) m"
proof -
  have "snd p \<noteq> []" if "p \<in> set m" for p
  proof (cases "fst p = k")
    case True
    with that assms(1,3) have "snd p = v"
      by (metis map_of_is_SomeI option.inject prod.collapse)
    with assms(4) show ?thesis by simp
  next
    case False
    with that assms(2) show ?thesis by (auto simp: list_all_iff)
  qed
  then show ?thesis by (auto simp: list_all_iff)
qed

lemma presence_close:
  assumes "presence_ok s"
  shows "presence_ok (fst (on_close s ws))"
proof (cases "truthy (connectedUserId s ws) \<and> map_of (userSockets s) (connectedUserId s ws) \<noteq> None")
  case False
  with assms show ?thesis
    by (auto simp: on_close_def Let_def presence_ok_def split: option.splits)
next
  case True
  let ?u = "connectedUserId s ws"
  let ?us = "upd_at ?u (set_delete ws) (userSockets s)"
  from True obtain v where v: "map_of (userSockets s) ?u = Some v" by auto
  have m: "map_of ?us ?u = Some (set_delete ws v)" by (simp add: map_of_upd_at v)
  have o: "list_all (\<lambda>p. fst p \<noteq> ?u \<longrightarrow> snd p \<noteq> []) ?us"
    using assms by (simp add: presence_ok_def upd_at_other)
  have d: "distinct (map fst ?us)" using assms by (simp add: presence_ok_def map_fst_upd_at)
  show ?thesis
  proof (cases "set_delete ws v = []")
    case True
    have "fst (on_close s ws) = s\<lparr> clients := AList.delete ws (clients s),
        userSockets := AList.delete ?u ?us, onlineUsers := AList.delete ?u (onlineUsers s) \<rparr>"
      using \<open>truthy ?u \<and> _\<close> v m True by (simp add: on_close_def Let_def)
    then show ?thesis
      using assms delete_nonempty [OF o] d
      by (simp add: presence_ok_def delete_keys map_fst_upd_at distinct_removeAll)
  next
    case False
    have "fst (on_close s ws) = s\<lparr> clients := AList.delete ws (clients s), userSockets := ?us \<rparr>"
      using \<open>truthy ?u \<and> _\<close> v m False by (simp add: on_close_def Let_def)
    then show ?thesis
      using assms distinct_key_nonempty [OF d o m False]
      by (simp add: presence_ok_def map_fst_upd_at)
  qed
qed

lemma presence_on_frame:
  "\<not> is_join f \<Longrightarrow> userSockets (fst (on_frame s ws f clk)) = userSockets s
     \<and> onlineUsers (fst (on_frame s ws f clk)) = onlineUsers s"
  by (cases f)
     (simp_all add: on_message_def on_dm_def on_get_dm_history_def on_typing_def
        on_dm_typing_def Let_def)

lemma presence_step: "presence_ok s \<Longrightarrow> presence_ok (step s e)"
proof (cases e)
  case (Frame ws f clk)
  assume a: "presence_ok s"
  show ?thesis
  proof (cases f)
    case (Join u n p a')
    with Frame a presence_join [OF a, of ws u n p a'] show ?thesis by simp
  qed (use Frame a presence_on_frame [of f s ws clk] in
       \<open>simp_all add: presence_ok_def del: on_frame.simps\<close>)
next
  case (Close ws)
  assume "presence_ok s"
  with Close presence_close [of s ws] show ?thesis by simp
qed (simp_all add: presence_ok_def on_connection_def register_user_def create_project_def
       vote_def Let_def split: option.splits)

lemma presence_run: "presence_ok (run evs)"
proof (induction evs rule: rev_induct)
  case Nil
  show ?case by (simp add: run_def init_def presence_ok_def)
next
  case (snoc e evs)
  then show ?case using presence_step [of "run evs" e] by (simp add: run_def)
qed

lemma roster_tracks_socket_sets:
  "u \<in> set (map fst (onlineUsers (run evs)))
     \<longleftrightarrow> (\<exists>sockets. map_of (userSockets (run evs)) u = Some sockets \<and> sockets \<noteq> [])"
proof -
  have p: "presence_ok (run evs)" by (rule presence_run)
  show ?thesis
  proof
    assume "u \<in> set (map fst (onlineUsers (run evs)))"
    with p have "u \<in> set (map fst (userSockets (run evs)))" by (simp add: presence_ok_def)
    then obtain v where v: "map_of (userSockets (run evs)) u = Some v"
      by (metis map_of_eq_None_iff not_Some_eq set_map)
    then have "(u, v) \<in> set (userSockets (run evs))" by (rule map_of_SomeD)
    with p have "v \<noteq> []" by (auto simp: presence_ok_def list_all_iff)
    with v show "\<exists>sockets. map_of (userSockets (run evs)) u = Some sockets \<and> sockets \<noteq> []" by blast
  next
    assume "\<exists>sockets. map_of (userSockets (run evs)) u = Some sockets \<and> sockets \<noteq> []"
    then obtain v where "map_of (userSockets (run evs)) u = Some v" by blast
    then have "u \<in> set (map fst (userSockets (run evs)))"
      by (metis map_of_eq_None_iff option.distinct(1) set_map)
    with p show "u \<in> set (map fst (onlineUsers (run evs)))" by (simp add: presence_ok_def)
  qed
qed

lemma stale_presence_without_identity:
  "clients (run [Connection, Frame 0 (Join None None None None) \<lparr> id_sample = 1, now = 1 \<rparr>,
       Close 0]) = []
   \<and> map fst (onlineUsers (run [Connection,
        Frame 0 (Join None None None None) \<lparr> id_sample = 1, now = 1 \<rparr>, Close 0])) = [None]"
  by (simp add: exec_defs)

section \<open>Presence after a second join\<close>

text \<open>
  C3, at its failing input. One connection joins as \<open>a\<close>, joins again as \<open>b\<close>, and
  closes. The close handler removes the connection from the socket set of \<open>b\<close> only, the
  identity bound last: afterwards no connection is open, yet the presence roster still lists
  \<open>a\<close>, and \<open>userSockets\<close> still holds the closed socket under \<open>a\<close>.
\<close>

theorem stale_presence_after_rejoin:
  "clients (run [Connection,
       Frame 0 (Join (Some ''a'') None None None) \<lparr> id_sample = 1, now = 1 \<rparr>,
       Frame 0 (Join (Some ''b'') None None None) \<lparr> id_sample = 2, now = 2 \<rparr>,
       Close 0]) = []
   \<and> map fst (onlineUsers (run [Connection,
       Frame 0 (Join (Some ''a'') None None None) \<lparr> id_sample = 1, now = 1 \<rparr>,
       Frame 0 (Join (Some ''b'') None None None) \<lparr> id_sample = 2, now = 2 \<rparr>,
       Close 0])) = [Some ''a'']
   \<and> userSockets (run [Connection,
       Frame 0 (Join (Some ''a'') None None None) \<lparr> id_sample = 1, now = 1 \<rparr>,
       Frame 0 (Join (Some ''b'') None None None) \<lparr> id_sample = 2, now = 2 \<rparr>,
       Close 0]) = [(Some ''a'', [0])]"
  by (simp add: exec_defs)

end
